theory Spec2Isabelle
  imports Complex_Main "HOL-Library.Sublist"
begin

section \<open>Python string primitives used by the pipeline\<close>

text \<open>
  Texts are modelled as \<^typ>\<open>string\<close>, one \<^typ>\<open>char\<close> per code point, which covers
  the code points 0 to 255. Lengths and indices are Python integers, hence \<^typ>\<open>int\<close>.
\<close>

definition py_len :: "'a list \<Rightarrow> int" where
  "py_len xs = int (length xs)"

text \<open>
  One bound of a slice \<open>s[a:b]\<close>: a negative bound counts from the end, and every bound is
  clamped into \<open>0 .. len(s)\<close>.
\<close>

definition py_bound :: "int \<Rightarrow> int \<Rightarrow> nat" where
  "py_bound n i = (if i < 0 then nat (max (i + n) 0) else nat (min i n))"

definition py_slice :: "'a list \<Rightarrow> int \<Rightarrow> int \<Rightarrow> 'a list" where
  "py_slice s a b =
     (let lo = py_bound (py_len s) a; hi = py_bound (py_len s) b
      in take (hi - lo) (drop lo s))"

text \<open>\<open>s.rfind(sub)\<close>: the highest index where \<open>sub\<close> occurs in \<open>s\<close>, or \<open>-1\<close>.\<close>

definition py_rfind :: "string \<Rightarrow> string \<Rightarrow> int" where
  "py_rfind s sub =
     (case filter (\<lambda>i. take (length sub) (drop i s) = sub)
             (rev [0 ..< Suc (length s) - length sub]) of
        [] \<Rightarrow> - 1
      | i # _ \<Rightarrow> int i)"

text \<open>
  \<open>str.isspace\<close> on the code points below 256: tab, line feed, vertical tab, form feed,
  carriage return, the four separators 28 to 31, space, next line (133) and no-break
  space (160).
\<close>

definition py_isspace :: "char \<Rightarrow> bool" where
  "py_isspace c = ((of_char c :: nat) \<in> {9, 10, 11, 12, 13, 28, 29, 30, 31, 32, 133, 160})"

definition py_strip :: "string \<Rightarrow> string" where
  "py_strip s = rev (dropWhile py_isspace (rev (dropWhile py_isspace s)))"

section \<open>The chunker: \<open>chunk_text\<close>\<close>

definition CHUNK_SIZE :: int where
  "CHUNK_SIZE = 400"

definition CHUNK_OVERLAP :: int where
  "CHUNK_OVERLAP = 50"

text \<open>
  One pass through the body of the \<open>while\<close> loop, up to the \<open>append\<close>: the window
  \<open>text[start:end]\<close>, shrunk to the last \<open>". "\<close> when the window ends before the text
  does and that boundary lies past \<open>chunk_size // 2\<close>. The result is the chunk before
  stripping, and \<open>end\<close>.
\<close>

definition chunk_window :: "string \<Rightarrow> int \<Rightarrow> int \<Rightarrow> string \<times> int" where
  "chunk_window text chunk_size start =
     (let end0 = start + chunk_size;
          chunk = py_slice text start end0
      in if end0 < py_len text then
           (let last_period = py_rfind chunk ''. ''
            in if last_period > chunk_size div 2
               then (py_slice chunk 0 (last_period + 1), start + last_period + 1)
               else (chunk, end0))
         else (chunk, end0))"

text \<open>
  The \<open>while start < len(text)\<close> loop. It may run forever, so it is a partial function:
  \<open>None\<close> stands for a run that never returns.
\<close>

partial_function (option) chunk_loop ::
  "string \<Rightarrow> int \<Rightarrow> int \<Rightarrow> int \<Rightarrow> string list \<Rightarrow> string list option" where
  "chunk_loop text chunk_size overlap start chunks =
     (if start < py_len text then
        chunk_loop text chunk_size overlap
          (snd (chunk_window text chunk_size start) - overlap)
          (chunks @ [py_strip (fst (chunk_window text chunk_size start))])
      else Some chunks)"

declare chunk_loop.simps [code]

definition chunk_text :: "string \<Rightarrow> int \<Rightarrow> int \<Rightarrow> string list option" where
  "chunk_text text chunk_size overlap =
     (if py_len text \<le> chunk_size then Some [text]
      else chunk_loop text chunk_size overlap 0 [])"

text \<open>
  The same loop, recording where each window starts instead of the chunk it gives: the
  list of the values \<open>start\<close> takes in the iterations of \<open>chunk_loop\<close>.
\<close>

partial_function (option) chunk_starts ::
  "string \<Rightarrow> int \<Rightarrow> int \<Rightarrow> int \<Rightarrow> int list \<Rightarrow> int list option" where
  "chunk_starts text chunk_size overlap start starts =
     (if start < py_len text then
        chunk_starts text chunk_size overlap
          (snd (chunk_window text chunk_size start) - overlap)
          (starts @ [start])
      else Some starts)"

declare chunk_starts.simps [code]

section \<open>More Python primitives: \<open>lower\<close>, \<open>in\<close>, \<open>str\<close>, dictionaries\<close>

text \<open>
  \<open>str.lower\<close> on the code points below 256: the letters A to Z and the accented capitals
  192 to 222 (without the multiplication sign 215) move up by 32; nothing else changes.
\<close>

definition py_lower_char :: "char \<Rightarrow> char" where
  "py_lower_char c =
     (let n = (of_char c :: nat)
      in if (65 \<le> n \<and> n \<le> 90) \<or> (192 \<le> n \<and> n \<le> 222 \<and> n \<noteq> 215)
         then char_of (n + 32) else c)"

definition py_lower :: "string \<Rightarrow> string" where
  "py_lower s = map py_lower_char s"

text \<open>\<open>w in s\<close> on strings: \<open>w\<close> occurs in \<open>s\<close> as a contiguous substring.\<close>

fun py_in :: "string \<Rightarrow> string \<Rightarrow> bool" where
  "py_in w [] = (w = [])"
| "py_in w (c # cs) = (prefix w (c # cs) \<or> py_in w cs)"

text \<open>\<open>str(i)\<close> for an index \<open>i \<ge> 0\<close>: the decimal digits, without leading zeros.\<close>

definition digit_char :: "nat \<Rightarrow> char" where
  "digit_char d = char_of (48 + d)"

fun py_str_nat :: "nat \<Rightarrow> string" where
  "py_str_nat n =
     (if n < 10 then [digit_char n]
      else py_str_nat (n div 10) @ [digit_char (n mod 10)])"

declare py_str_nat.simps [simp del]

text \<open>
  The value of a dictionary field of a dataset row is a string or \<open>None\<close>; a row is a
  dictionary from field names to such values.
\<close>

datatype pyval = PNone | PStr string

type_synonym row = "string \<rightharpoonup> pyval"

datatype py_error = AttributeError | TypeError | IndexError | ValueError

definition dict_get :: "row \<Rightarrow> string \<Rightarrow> pyval \<Rightarrow> pyval" where
  "dict_get d k dflt = (case d k of None \<Rightarrow> dflt | Some v \<Rightarrow> v)"

text \<open>Truth value of a field value, as \<open>or\<close> tests it: \<open>None\<close> and \<open>""\<close> are false.\<close>

fun py_truthy :: "pyval \<Rightarrow> bool" where
  "py_truthy PNone = False"
| "py_truthy (PStr s) = (s \<noteq> [])"

text \<open>How an f-string renders a field value.\<close>

fun py_format :: "pyval \<Rightarrow> string" where
  "py_format PNone = ''None''"
| "py_format (PStr s) = s"

section \<open>The source filter: \<open>load_guidelines\<close>\<close>

definition ALLOWED_SOURCES :: "string set" where
  "ALLOWED_SOURCES = {''who'', ''cdc'', ''nice'', ''icrc''}"

record guideline =
  guideline_id :: pyval
  guideline_title :: pyval
  guideline_source :: string
  guideline_text :: string
  guideline_url :: pyval

text \<open>
  The body of the loop over the dataset, for one row: \<open>Inr None\<close> when the row is
  skipped, \<open>Inr (Some g)\<close> when \<open>g\<close> is appended to \<open>filtered\<close>. \<open>None.lower()\<close> raises
  \<open>AttributeError\<close> and \<open>len(None)\<close> raises \<open>TypeError\<close>.
\<close>

definition filter_row :: "row \<Rightarrow> py_error + guideline option" where
  "filter_row r =
     (case dict_get r ''source'' (PStr '''') of
        PNone \<Rightarrow> Inl AttributeError
      | PStr s \<Rightarrow>
          (let source = py_lower s
           in if source \<in> ALLOWED_SOURCES then
                (let text0 = (if py_truthy (dict_get r ''clean_text'' PNone)
                              then dict_get r ''clean_text'' PNone
                              else dict_get r ''raw_text'' (PStr ''''))
                 in case text0 of
                      PNone \<Rightarrow> Inl TypeError
                    | PStr t \<Rightarrow>
                        if py_len t > 100 then
                          Inr (Some \<lparr>guideline_id = dict_get r ''id'' (PStr ''''),
                                     guideline_title = dict_get r ''title'' (PStr ''Untitled''),
                                     guideline_source = source,
                                     guideline_text = t,
                                     guideline_url = dict_get r ''url'' (PStr '''')\<rparr>)
                        else Inr None)
              else Inr None))"

fun load_rows :: "row list \<Rightarrow> guideline list \<Rightarrow> py_error + guideline list" where
  "load_rows [] filtered = Inr filtered"
| "load_rows (r # rs) filtered =
     (case filter_row r of
        Inl e \<Rightarrow> Inl e
      | Inr None \<Rightarrow> load_rows rs filtered
      | Inr (Some g) \<Rightarrow> load_rows rs (filtered @ [g]))"

text \<open>\<open>load_guidelines\<close>, with the downloaded dataset as its argument.\<close>

definition load_guidelines :: "row list \<Rightarrow> py_error + guideline list" where
  "load_guidelines dataset = load_rows dataset []"

section \<open>Assembling the protocols: \<open>main\<close>\<close>

record protocol =
  protocol_id :: string
  protocol_title :: pyval
  protocol_source :: string
  protocol_text :: string
  protocol_url :: pyval

text \<open>The f-string \<open>f"{guideline['source']}_{guideline['id']}_chunk_{i}"\<close>.\<close>

definition make_protocol_id :: "guideline \<Rightarrow> nat \<Rightarrow> string" where
  "make_protocol_id g i =
     guideline_source g @ ''_'' @ py_format (guideline_id g) @ ''_chunk_'' @ py_str_nat i"

text \<open>The inner loop \<open>for i, chunk in enumerate(chunks)\<close>: the protocols of one guideline.\<close>

definition chunk_protocols :: "guideline \<Rightarrow> string list \<Rightarrow> protocol list" where
  "chunk_protocols g chunks =
     map (\<lambda>(i, chunk).
            \<lparr>protocol_id = make_protocol_id g i,
             protocol_title = guideline_title g,
             protocol_source = guideline_source g,
             protocol_text = chunk,
             protocol_url = guideline_url g\<rparr>)
         (enumerate 0 chunks)"

text \<open>
  The outer loop \<open>for guideline in guidelines\<close>, with the list \<open>protocols\<close> built so far;
  \<open>None\<close> when \<open>chunk_text\<close> does not return.
\<close>

fun build_protocols :: "guideline list \<Rightarrow> protocol list \<Rightarrow> protocol list option" where
  "build_protocols [] protocols = Some protocols"
| "build_protocols (g # gs) protocols =
     (case chunk_text (guideline_text g) CHUNK_SIZE CHUNK_OVERLAP of
        None \<Rightarrow> None
      | Some chunks \<Rightarrow> build_protocols gs (protocols @ chunk_protocols g chunks))"

section \<open>Embeddings: \<open>generate_embeddings\<close>\<close>












section \<open>Writing the collection\<close>





section \<open>The keyword triage: \<open>run_fallback_triage\<close>\<close>

definition SPECIALTIES :: "string list" where
  "SPECIALTIES =
     [''Behavioral Health'', ''Cardiology'', ''Dermatology'', ''Gastroenterology'',
      ''Neurology'', ''Oncology'', ''Orthopedic Surgery'', ''Pain Management'',
      ''Primary Care'', ''Pulmonology'', ''Rheumatology'', ''Sports Medicine'',
      ''Urology'', ''Vascular Medicine'', ''Women'' @ [CHR 0x27] @ ''s Health'']"

record triage =
  specialty :: string
  confidence :: real

text \<open>\<open>any(w in s for w in ws)\<close>.\<close>

definition any_in :: "string list \<Rightarrow> string \<Rightarrow> bool" where
  "any_in ws s = list_ex (\<lambda>w. py_in w s) ws"

definition run_fallback_triage :: "string \<Rightarrow> triage" where
  "run_fallback_triage symptom =
     (let s = py_lower symptom
      in if py_in ''burn'' s \<and> (py_in ''pee'' s \<or> py_in ''urin'' s) then
           \<lparr>specialty = ''Urology'', confidence = 0.85\<rparr>
         else if py_in ''chest'' s \<and> (py_in ''eat'' s \<or> py_in ''food'' s \<or> py_in ''meal'' s) then
           \<lparr>specialty = ''Gastroenterology'', confidence = 0.82\<rparr>
         else if any_in [''sad'', ''depress'', ''anxious'', ''panic''] s then
           \<lparr>specialty = ''Behavioral Health'', confidence = 0.80\<rparr>
         else if any_in [''mole'', ''rash'', ''skin'', ''itch'', ''acne''] s then
           \<lparr>specialty = ''Dermatology'', confidence = 0.78\<rparr>
         else if any_in [''heart'', ''chest pain'', ''palpitation''] s then
           \<lparr>specialty = ''Cardiology'', confidence = 0.75\<rparr>
         else if any_in [''headache'', ''migraine'', ''numbness'', ''tingling'', ''confusion''] s then
           \<lparr>specialty = ''Neurology'', confidence = 0.75\<rparr>
         else if any_in [''back pain'', ''knee'', ''shoulder'', ''joint''] s then
           \<lparr>specialty = ''Orthopedic Surgery'', confidence = 0.75\<rparr>
         else if any_in [''breath'', ''cough'', ''wheez''] s then
           \<lparr>specialty = ''Pulmonology'', confidence = 0.75\<rparr>
         else if any_in [''period'', ''menstrua'', ''pelvic'', ''hot flash''] s then
           \<lparr>specialty = ''Women'' @ [CHR 0x27] @ ''s Health'', confidence = 0.75\<rparr>
         else if any_in [''swallow'', ''stomach'', ''diarrhea'', ''abdominal'', ''stool''] s then
           \<lparr>specialty = ''Gastroenterology'', confidence = 0.75\<rparr>
         else \<lparr>specialty = ''Primary Care'', confidence = 0.50\<rparr>)"

text \<open>
  The rule table the cascade of \<open>if\<close> statements amounts to: each rule is a test on the
  lowercased text and the result it returns; the specialties the function can return.
\<close>

definition fallback_rules :: "((string \<Rightarrow> bool) \<times> triage) list" where
  "fallback_rules =
     [(\<lambda>s. py_in ''burn'' s \<and> (py_in ''pee'' s \<or> py_in ''urin'' s),
         \<lparr>specialty = ''Urology'', confidence = 0.85\<rparr>),
      (\<lambda>s. py_in ''chest'' s \<and> (py_in ''eat'' s \<or> py_in ''food'' s \<or> py_in ''meal'' s),
         \<lparr>specialty = ''Gastroenterology'', confidence = 0.82\<rparr>),
      (any_in [''sad'', ''depress'', ''anxious'', ''panic''],
         \<lparr>specialty = ''Behavioral Health'', confidence = 0.80\<rparr>),
      (any_in [''mole'', ''rash'', ''skin'', ''itch'', ''acne''],
         \<lparr>specialty = ''Dermatology'', confidence = 0.78\<rparr>),
      (any_in [''heart'', ''chest pain'', ''palpitation''],
         \<lparr>specialty = ''Cardiology'', confidence = 0.75\<rparr>),
      (any_in [''headache'', ''migraine'', ''numbness'', ''tingling'', ''confusion''],
         \<lparr>specialty = ''Neurology'', confidence = 0.75\<rparr>),
      (any_in [''back pain'', ''knee'', ''shoulder'', ''joint''],
         \<lparr>specialty = ''Orthopedic Surgery'', confidence = 0.75\<rparr>),
      (any_in [''breath'', ''cough'', ''wheez''],
         \<lparr>specialty = ''Pulmonology'', confidence = 0.75\<rparr>),
      (any_in [''period'', ''menstrua'', ''pelvic'', ''hot flash''],
         \<lparr>specialty = ''Women'' @ [CHR 0x27] @ ''s Health'', confidence = 0.75\<rparr>),
      (any_in [''swallow'', ''stomach'', ''diarrhea'', ''abdominal'', ''stool''],
         \<lparr>specialty = ''Gastroenterology'', confidence = 0.75\<rparr>)]"

definition first_match :: "string \<Rightarrow> triage" where
  "first_match s =
     (case find (\<lambda>rule. fst rule s) fallback_rules of
        Some rule \<Rightarrow> snd rule
      | None \<Rightarrow> \<lparr>specialty = ''Primary Care'', confidence = 0.50\<rparr>)"

definition fallback_specialties :: "string list" where
  "fallback_specialties =
     [''Urology'', ''Gastroenterology'', ''Behavioral Health'', ''Dermatology'',
      ''Cardiology'', ''Neurology'', ''Orthopedic Surgery'', ''Pulmonology'',
      ''Women'' @ [CHR 0x27] @ ''s Health'', ''Primary Care'']"

text \<open>
  The text of a row in the words of the specification: the primary field \<open>clean_text\<close>,
  and the alternate field \<open>raw_text\<close> (or \<open>""\<close> without one) when the primary is absent,
  \<open>None\<close> or empty.
\<close>

definition selected_text :: "row \<Rightarrow> pyval" where
  "selected_text r =
     (let alternate = (case r ''raw_text'' of None \<Rightarrow> PStr '''' | Some v \<Rightarrow> v)
      in case r ''clean_text'' of
           Some (PStr c) \<Rightarrow> if c = [] then alternate else PStr c
         | _ \<Rightarrow> alternate)"

text \<open>A text of 101 characters, just above the threshold of the source filter.\<close>

definition long_text :: string where
  "long_text = replicate 101 (CHR ''a'')"

text \<open>A protocol, for concrete runs of the writer.\<close>

definition p0 :: protocol where
  "p0 = \<lparr>protocol_id = ''who_7_chunk_0'', protocol_title = PStr ''Untitled'',
         protocol_source = ''who'', protocol_text = long_text, protocol_url = PStr ''''\<rparr>"

section \<open>Notions used to state the properties\<close>

text \<open>
  What the identifier of a chunk shows of its parent document: the source tag and the
  rendered \<open>id\<close>.
\<close>

definition guideline_identity :: "guideline \<Rightarrow> string \<times> string" where
  "guideline_identity g = (guideline_source g, py_format (guideline_id g))"

text \<open>The number of chunks \<open>main\<close> gets for a guideline (with the default configuration).\<close>

definition chunk_count :: "guideline \<Rightarrow> nat" where
  "chunk_count g =
     (case chunk_text (guideline_text g) CHUNK_SIZE CHUNK_OVERLAP of
        None \<Rightarrow> 0
      | Some chunks \<Rightarrow> length chunks)"

text \<open>Decimal digits, and the number a string of digits denotes.\<close>

definition is_digit :: "char \<Rightarrow> bool" where
  "is_digit c = (48 \<le> (of_char c :: nat) \<and> (of_char c :: nat) \<le> 57)"

definition digits_val :: "string \<Rightarrow> nat" where
  "digits_val s = foldl (\<lambda>a c. 10 * a + ((of_char c :: nat) - 48)) 0 s"



text \<open>
  The windows of a run of the loop that begins at \<open>start\<close>, by their starting points: the
  first is \<open>start\<close>, the next begins \<open>overlap\<close> characters before the end of the one
  before, and the last is the first whose successor would begin at or past the end of
  the text.
\<close>

fun window_chain :: "string \<Rightarrow> int \<Rightarrow> int \<Rightarrow> int \<Rightarrow> int list \<Rightarrow> bool" where
  "window_chain t chunk_size overlap start [] = (\<not> start < py_len t)"
| "window_chain t chunk_size overlap start (w # ws) =
     (start < py_len t \<and> w = start \<and>
      window_chain t chunk_size overlap (snd (chunk_window t chunk_size start) - overlap) ws)"

section \<open>Facts about the string primitives\<close>

lemma py_rfind_ge: "- 1 \<le> py_rfind s sub"
  by (simp add: py_rfind_def split: list.splits)

lemma py_rfind_le: "py_rfind s sub + int (length sub) \<le> max (int (length s)) (int (length sub) - 1)"
proof (cases "filter (\<lambda>i. take (length sub) (drop i s) = sub) (rev [0 ..< Suc (length s) - length sub])")
  case Nil
  then show ?thesis by (simp add: py_rfind_def)
next
  case (Cons i js)
  then have "i \<in> set (rev [0 ..< Suc (length s) - length sub])"
    by (metis filter_is_subset list.set_intros(1) subsetD)
  then have "i + length sub \<le> length s" by auto
  with Cons show ?thesis by (simp add: py_rfind_def)
qed

lemma py_rfind_found:
  assumes "0 \<le> py_rfind s sub"
  shows "py_rfind s sub + int (length sub) \<le> int (length s)"
    and "take (length sub) (drop (nat (py_rfind s sub)) s) = sub"
proof -
  let ?f = "filter (\<lambda>i. take (length sub) (drop i s) = sub) (rev [0 ..< Suc (length s) - length sub])"
  from assms obtain i js where c: "?f = i # js"
    by (cases ?f) (auto simp: py_rfind_def)
  then have "i \<in> set ?f" by simp
  then have "i + length sub \<le> length s" "take (length sub) (drop i s) = sub" by auto
  with c show "py_rfind s sub + int (length sub) \<le> int (length s)"
    and "take (length sub) (drop (nat (py_rfind s sub)) s) = sub" by (simp_all add: py_rfind_def)
qed

lemma length_py_slice_le: "0 \<le> n \<Longrightarrow> length (py_slice s a (a + n)) \<le> nat n"
  by (auto simp: py_slice_def py_bound_def py_len_def Let_def)

lemma length_py_slice_nonneg:
  "0 \<le> a \<Longrightarrow> 0 \<le> b \<Longrightarrow> length (py_slice s a b) = nat (min b (py_len s) - a)"
  by (auto simp: py_slice_def py_bound_def py_len_def Let_def)

section \<open>Progress of the sliding window\<close>

lemma chunk_window_end_le:
  assumes "0 \<le> cs"
  shows "snd (chunk_window t cs st) \<le> st + cs"
proof -
  let ?chunk = "py_slice t st (st + cs)"
  have len: "int (length ?chunk) \<le> cs"
    using length_py_slice_le [OF assms, of t st] assms by linarith
  have "py_rfind ?chunk ''. '' + 2 \<le> max (int (length ?chunk)) 1"
    using py_rfind_le [of ?chunk "''. ''"] by simp
  with len assms have "py_rfind ?chunk ''. '' + 1 \<le> cs \<or> py_rfind ?chunk ''. '' < 0" by linarith
  moreover have "py_rfind ?chunk ''. '' > cs div 2 \<Longrightarrow> \<not> py_rfind ?chunk ''. '' < 0"
    using assms by (smt (verit) pos_imp_zdiv_nonneg_iff)
  ultimately show ?thesis
    by (auto simp: chunk_window_def Let_def)
qed

lemma chunk_window_end_ge:
  "snd (chunk_window t cs st) = st + cs \<or> st + cs div 2 + 2 \<le> snd (chunk_window t cs st)"
  by (auto simp: chunk_window_def Let_def)

lemma chunk_loop_diverges:
  assumes "chunk_loop t cs ov st acc = Some r"
  shows "\<not> (0 \<le> cs \<and> cs \<le> ov \<and> st < py_len t)"
proof (rule chunk_loop.raw_induct
    [where P = "\<lambda>t cs ov st acc r. \<not> (0 \<le> cs \<and> cs \<le> ov \<and> st < py_len t)", OF _ assms])
  fix f t cs ov st acc and r :: "string list"
  assume IH: "\<And>a b c d e y. f a b c d e = Some y \<Longrightarrow> \<not> (0 \<le> b \<and> b \<le> c \<and> d < py_len a)"
    and eq: "(if st < py_len t
          then f t cs ov (snd (chunk_window t cs st) - ov)
                 (acc @ [py_strip (fst (chunk_window t cs st))])
          else Some acc) = Some r"
  show "\<not> (0 \<le> cs \<and> cs \<le> ov \<and> st < py_len t)"
  proof
    assume h: "0 \<le> cs \<and> cs \<le> ov \<and> st < py_len t"
    then have "snd (chunk_window t cs st) - ov < py_len t"
      using chunk_window_end_le [of cs t st] by linarith
    moreover from h eq have "f t cs ov (snd (chunk_window t cs st) - ov)
                 (acc @ [py_strip (fst (chunk_window t cs st))]) = Some r" by simp
    ultimately show False using IH h by blast
  qed
qed

lemma chunk_loop_terminates:
  assumes "0 \<le> ov" "ov < cs" "ov \<le> cs div 2 + 1"
  shows "\<exists>r. chunk_loop t cs ov st acc = Some r"
proof (induction "nat (py_len t - st)" arbitrary: st acc rule: less_induct)
  case less
  show ?case
  proof (cases "st < py_len t")
    case False
    then show ?thesis by (subst chunk_loop.simps) simp
  next
    case True
    let ?st = "snd (chunk_window t cs st) - ov"
    have "st < ?st"
      using chunk_window_end_ge [of t cs st] assms by linarith
    with True have "nat (py_len t - ?st) < nat (py_len t - st)" by linarith
    from less [OF this] obtain r where
      "chunk_loop t cs ov ?st (acc @ [py_strip (fst (chunk_window t cs st))]) = Some r"
      by blast
    with True show ?thesis by (subst chunk_loop.simps) simp
  qed
qed

section \<open>Termination and the configuration of the chunker\<close>

lemmas py_string_defs =
  py_len_def py_bound_def py_slice_def py_rfind_def py_isspace_def py_strip_def

lemma chunk_loop_stuck:
  assumes "st < py_len t" "snd (chunk_window t cs st) - ov = st"
  shows "chunk_loop t cs ov st acc = None"
proof (rule ccontr)
  assume "chunk_loop t cs ov st acc \<noteq> None"
  then obtain r where run: "chunk_loop t cs ov st acc = Some r" by auto
  have "\<not> (t = t \<and> cs = cs \<and> ov = ov \<and> st = st)"
  proof (rule chunk_loop.raw_induct
      [where P = "\<lambda>t' cs' ov' st' acc' r'. \<not> (t' = t \<and> cs' = cs \<and> ov' = ov \<and> st' = st)",
        OF _ run])
    fix f t' cs' ov' st' acc' and r' :: "string list"
    assume IH: "\<And>a b c d e y. f a b c d e = Some y \<Longrightarrow> \<not> (a = t \<and> b = cs \<and> c = ov \<and> d = st)"
      and eq: "(if st' < py_len t'
          then f t' cs' ov' (snd (chunk_window t' cs' st') - ov')
                 (acc' @ [py_strip (fst (chunk_window t' cs' st'))])
          else Some acc') = Some r'"
    show "\<not> (t' = t \<and> cs' = cs \<and> ov' = ov \<and> st' = st)"
    proof
      assume h: "t' = t \<and> cs' = cs \<and> ov' = ov \<and> st' = st"
      with eq assms have "f t cs ov st (acc' @ [py_strip (fst (chunk_window t cs st))]) = Some r'"
        by simp
      with IH show False by blast
    qed
  qed
  then show False by simp
qed

text \<open>
  A window of six characters over \<open>"aaaa. aaaa"\<close> is cut back to \<open>"aaaa."\<close>, five
  characters; with an overlap of five the next window starts where this one did.
\<close>

lemma dense_window: "chunk_window ''aaaa. aaaa'' 6 0 = (''aaaa.'', 5)"
  by (simp add: chunk_window_def py_string_defs)

text \<open>
  Claim C1 (termination of \<open>chunk_text\<close> whenever \<open>0 \<le> overlap < max_size\<close>). The loop
  does not advance when a window is cut back to a sentence boundary that lies at most
  \<open>overlap\<close> characters after its start: \<open>chunk_text("aaaa. aaaa", 6, 5)\<close> never returns,
  although \<open>0 \<le> 5 < 6\<close>. The scenario \<open>"A. B. C."\<close> with size 4 and overlap 1 does
  return, with three chunks. (Lemma \<open>chunk_loop_terminates\<close> above gives the
  configurations for which every text is chunked in finitely many steps.)
\<close>

theorem chunk_text_dense_boundaries_diverges:
  "chunk_text ''aaaa. aaaa'' 6 5 = None \<and>
   chunk_text ''A. B. C.'' 4 1 = Some [''A. B'', ''B. C'', ''C.'']"
proof
  have "chunk_loop ''aaaa. aaaa'' 6 5 0 [] = None"
    by (rule chunk_loop_stuck) (simp_all add: dense_window py_len_def)
  then show "chunk_text ''aaaa. aaaa'' 6 5 = None"
    by (simp add: chunk_text_def py_len_def)
  show "chunk_text ''A. B. C.'' 4 1 = Some [''A. B'', ''B. C'', ''C.'']"
    by (simp add: chunk_text_def chunk_loop.simps chunk_window_def py_string_defs)
qed

text \<open>
  Claim C4 (a text no longer than \<open>max_size\<close> gives exactly one chunk, the stripped text).
  The early return hands back the text itself: unlike the chunks of the loop it is not
  stripped. For \<open>" a "\<close> with the default configuration the single chunk is \<open>" a "\<close>,
  not \<open>"a"\<close>.
\<close>

theorem chunk_text_short_not_stripped:
  "chunk_text '' a '' CHUNK_SIZE CHUNK_OVERLAP = Some ['' a ''] \<and> py_strip '' a '' = ''a''"
  by (simp add: chunk_text_def CHUNK_SIZE_def py_string_defs)

text \<open>
  Claim C6 (a configuration with \<open>overlap \<ge> max_size\<close> is rejected). As stated the claim
  fails: \<open>chunk_text("ab", 2, 5)\<close> returns \<open>["ab"]\<close>, no error is raised.
\<close>

theorem chunk_text_overlap_not_rejected: "chunk_text ''ab'' 2 5 = Some [''ab'']"
  by (simp add: chunk_text_def py_len_def)

text \<open>
  Claim C6, as amended: \<open>chunk_text\<close> does not validate \<open>overlap\<close> against
  \<open>chunk_size\<close>. With \<open>0 \<le> chunk_size \<le> overlap\<close>, a text of at most \<open>chunk_size\<close>
  characters is returned as the single chunk, and a longer text enters the loop, which then
  never returns.
\<close>

theorem chunk_text_unvalidated_overlap:
  "0 \<le> chunk_size \<and> chunk_size \<le> overlap \<Longrightarrow>
     (py_len t \<le> chunk_size \<longrightarrow> chunk_text t chunk_size overlap = Some [t]) \<and>
     (chunk_size < py_len t \<longrightarrow> chunk_text t chunk_size overlap = None)"
proof (intro conjI impI)
  assume "py_len t \<le> chunk_size"
  then show "chunk_text t chunk_size overlap = Some [t]" by (simp add: chunk_text_def)
next
  assume h: "0 \<le> chunk_size \<and> chunk_size \<le> overlap" and long: "chunk_size < py_len t"
  then have "0 < py_len t" by linarith
  with h have "chunk_loop t chunk_size overlap 0 [] = None"
    using chunk_loop_diverges [of t chunk_size overlap 0 "[]"] by (cases "chunk_loop t chunk_size overlap 0 []") auto
  with long show "chunk_text t chunk_size overlap = None" by (simp add: chunk_text_def)
qed

theorem chunk_text_unvalidated_overlap_witness:
  "(0::int) \<le> 2 \<and> (2::int) \<le> 5 \<and> chunk_text ''ab'' 2 5 = Some [''ab''] \<and> chunk_text ''abc'' 2 5 = None"
  using chunk_text_unvalidated_overlap [of 2 5 "''ab''"] chunk_text_unvalidated_overlap [of 2 5 "''abc''"]
  by (simp add: py_len_def)

section \<open>The keyword triage\<close>

text \<open>A table of ten rules, searched with \<open>find\<close>, is a cascade of ten tests.\<close>

lemma find_cascade10:
  "(case find (\<lambda>rule. fst rule s)
      [(p1, r1), (p2, r2), (p3, r3), (p4, r4), (p5, r5), (p6, r6), (p7, r7), (p8, r8), (p9, r9),
       (p10, r10)] of Some rule \<Rightarrow> snd rule | None \<Rightarrow> d) =
   (if p1 s then r1 else if p2 s then r2 else if p3 s then r3 else if p4 s then r4
    else if p5 s then r5 else if p6 s then r6 else if p7 s then r7 else if p8 s then r8
    else if p9 s then r9 else if p10 s then r10 else d)"
  by simp

lemma run_fallback_triage_cascade: "run_fallback_triage s = first_match (py_lower s)"
  unfolding run_fallback_triage_def first_match_def fallback_rules_def
  by (simp only: find_cascade10 Let_def)

lemma fallback_specialties_listed:
  "distinct fallback_specialties" "length fallback_specialties = 10"
  "set fallback_specialties \<subseteq> set SPECIALTIES"
  by (simp_all add: fallback_specialties_def SPECIALTIES_def)

text \<open>
  Claim C10 (\<open>run_fallback_triage\<close> is total and deterministic). The function is a total
  function of the input string. Its specialty is one of ten distinct entries of
  \<open>SPECIALTIES\<close>, its confidence lies between 0.50 and 0.85, its result is that of the
  first rule of the table, in the order of the source, whose test holds on the lowercased
  input, and when no rule matches it is Primary Care with confidence 0.50.
\<close>

theorem run_fallback_triage_first_match:
  "specialty (run_fallback_triage s) \<in> set fallback_specialties \<and>
   distinct fallback_specialties \<and> length fallback_specialties = 10 \<and>
   set fallback_specialties \<subseteq> set SPECIALTIES \<and>
   0.50 \<le> confidence (run_fallback_triage s) \<and> confidence (run_fallback_triage s) \<le> 0.85 \<and>
   run_fallback_triage s = first_match (py_lower s) \<and>
   (find (\<lambda>rule. fst rule (py_lower s)) fallback_rules = None \<longrightarrow>
      run_fallback_triage s = \<lparr>specialty = ''Primary Care'', confidence = 0.50\<rparr>)"
proof -
  have spec: "specialty (run_fallback_triage s) \<in> set fallback_specialties"
    by (simp add: run_fallback_triage_def fallback_specialties_def Let_def)
  have conf: "0.50 \<le> confidence (run_fallback_triage s)" "confidence (run_fallback_triage s) \<le> 0.85"
    by (simp_all add: run_fallback_triage_def Let_def)
  have none: "find (\<lambda>rule. fst rule (py_lower s)) fallback_rules = None \<longrightarrow>
      run_fallback_triage s = \<lparr>specialty = ''Primary Care'', confidence = 0.50\<rparr>"
    by (simp add: run_fallback_triage_cascade first_match_def)
  from spec fallback_specialties_listed conf run_fallback_triage_cascade none
  show ?thesis by blast
qed

theorem run_fallback_triage_first_match_witness:
  "find (\<lambda>rule. fst rule (py_lower ''Hello'')) fallback_rules = None \<and>
   run_fallback_triage ''Hello'' = \<lparr>specialty = ''Primary Care'', confidence = 0.50\<rparr> \<and>
   run_fallback_triage ''It BURNS when I pee'' = \<lparr>specialty = ''Urology'', confidence = 0.85\<rparr>"
proof -
  have none: "find (\<lambda>rule. fst rule (py_lower ''Hello'')) fallback_rules = None"
    by code_simp
  have fm: "first_match (py_lower ''It BURNS when I pee'') = \<lparr>specialty = ''Urology'', confidence = 0.85\<rparr>"
    by code_simp
  from none run_fallback_triage_first_match [of "''Hello''"]
  have a: "run_fallback_triage ''Hello'' = \<lparr>specialty = ''Primary Care'', confidence = 0.50\<rparr>"
    by blast
  from run_fallback_triage_first_match [of "''It BURNS when I pee''"]
  have "run_fallback_triage ''It BURNS when I pee'' = first_match (py_lower ''It BURNS when I pee'')"
    by blast
  with fm have b: "run_fallback_triage ''It BURNS when I pee'' = \<lparr>specialty = ''Urology'', confidence = 0.85\<rparr>"
    by (simp only:)
  from none a b show ?thesis by blast
qed

section \<open>The source filter\<close>

lemma filter_row_text: 
  "(if py_truthy (dict_get r ''clean_text'' PNone)
    then dict_get r ''clean_text'' PNone
    else dict_get r ''raw_text'' (PStr '''')) = selected_text r"
  by (auto simp: selected_text_def dict_get_def Let_def split: option.splits pyval.splits)

lemma filter_row_cases:
  "filter_row r =
     (case dict_get r ''source'' (PStr '''') of
        PNone \<Rightarrow> Inl AttributeError
      | PStr s \<Rightarrow>
          if py_lower s \<in> ALLOWED_SOURCES then
            (case selected_text r of
               PNone \<Rightarrow> Inl TypeError
             | PStr t \<Rightarrow>
                 if 100 < length t then
                   Inr (Some \<lparr>guideline_id = dict_get r ''id'' (PStr ''''),
                              guideline_title = dict_get r ''title'' (PStr ''Untitled''),
                              guideline_source = py_lower s,
                              guideline_text = t,
                              guideline_url = dict_get r ''url'' (PStr '''')\<rparr>)
                 else Inr None)
          else Inr None)"
  unfolding filter_row_def Let_def filter_row_text
  by (simp add: py_len_def split: pyval.splits)











section \<open>Stripped chunks\<close>

lemma last_dropWhile: "dropWhile P xs \<noteq> [] \<Longrightarrow> last (dropWhile P xs) = last xs"
  by (induction xs) (auto split: if_splits)

lemma py_strip_ends:
  "py_strip s \<noteq> [] \<Longrightarrow> \<not> py_isspace (hd (py_strip s)) \<and> \<not> py_isspace (last (py_strip s))"
proof -
  let ?u = "dropWhile py_isspace s"
  let ?w = "dropWhile py_isspace (rev ?u)"
  assume "py_strip s \<noteq> []"
  then have w: "?w \<noteq> []" by (simp add: py_strip_def)
  have u: "?u \<noteq> []"
  proof
    assume "?u = []"
    then have "?w = []" by (simp only: rev.simps dropWhile.simps)
    with w show False by simp
  qed
  from w have "\<not> py_isspace (hd ?w)" by (rule hd_dropWhile)
  with w have l: "\<not> py_isspace (last (rev ?w))" by (simp add: last_rev)
  from w have "last ?w = last (rev ?u)" by (rule last_dropWhile)
  with w u have "hd (rev ?w) = hd ?u" by (simp add: hd_rev last_rev)
  moreover from u have "\<not> py_isspace (hd ?u)" by (rule hd_dropWhile)
  ultimately have "\<not> py_isspace (hd (rev ?w))" by simp
  with l show ?thesis by (simp add: py_strip_def)
qed

lemma py_strip_fixed:
  assumes "s = [] \<or> (\<not> py_isspace (hd s) \<and> \<not> py_isspace (last s))"
  shows "py_strip s = s"
proof (cases "s = []")
  case True
  then show ?thesis by (simp add: py_strip_def)
next
  case False
  with assms have h: "\<not> py_isspace (hd s)" and l: "\<not> py_isspace (last s)" by simp_all
  from False h have a: "dropWhile py_isspace s = s" by (cases s) simp_all
  from False l have "\<not> py_isspace (hd (rev s))" by (simp add: hd_rev)
  with False have "dropWhile py_isspace (rev s) = rev s" by (cases "rev s") simp_all
  with a show ?thesis by (simp add: py_strip_def)
qed

lemma py_strip_idem: "py_strip (py_strip s) = py_strip s"
  using py_strip_ends [of s] by (intro py_strip_fixed) blast

lemma chunk_loop_stripped:
  assumes "chunk_loop t cs ov st acc = Some r"
  shows "(\<forall>c \<in> set acc. py_strip c = c) \<longrightarrow> (\<forall>c \<in> set r. py_strip c = c)"
proof (rule chunk_loop.raw_induct
    [where P = "\<lambda>t cs ov st acc r. (\<forall>c \<in> set acc. py_strip c = c) \<longrightarrow> (\<forall>c \<in> set r. py_strip c = c)",
      OF _ assms])
  fix f t cs ov st acc and r :: "string list"
  assume IH: "\<And>a b c d e y. f a b c d e = Some y \<Longrightarrow>
      (\<forall>c \<in> set e. py_strip c = c) \<longrightarrow> (\<forall>c \<in> set y. py_strip c = c)"
    and eq: "(if st < py_len t
          then f t cs ov (snd (chunk_window t cs st) - ov)
                 (acc @ [py_strip (fst (chunk_window t cs st))])
          else Some acc) = Some r"
  show "(\<forall>c \<in> set acc. py_strip c = c) \<longrightarrow> (\<forall>c \<in> set r. py_strip c = c)"
  proof (cases "st < py_len t")
    case True
    with eq have "f t cs ov (snd (chunk_window t cs st) - ov)
                 (acc @ [py_strip (fst (chunk_window t cs st))]) = Some r" by simp
    from IH [OF this] show ?thesis by (simp add: py_strip_idem)
  next
    case False
    with eq show ?thesis by simp
  qed
qed

lemma chunk_loop_of_starts:
  assumes "chunk_starts t cs ov st acc = Some r"
  shows "chunk_loop t cs ov st (map (\<lambda>s. py_strip (fst (chunk_window t cs s))) acc) =
         Some (map (\<lambda>s. py_strip (fst (chunk_window t cs s))) r)"
proof (rule chunk_starts.raw_induct
    [where P = "\<lambda>t cs ov st acc r.
        chunk_loop t cs ov st (map (\<lambda>s. py_strip (fst (chunk_window t cs s))) acc) =
        Some (map (\<lambda>s. py_strip (fst (chunk_window t cs s))) r)", OF _ assms])
  fix f t cs ov st acc and r :: "int list"
  assume IH: "\<And>a b c d e y. f a b c d e = Some y \<Longrightarrow>
      chunk_loop a b c d (map (\<lambda>s. py_strip (fst (chunk_window a b s))) e) =
      Some (map (\<lambda>s. py_strip (fst (chunk_window a b s))) y)"
    and eq: "(if st < py_len t
          then f t cs ov (snd (chunk_window t cs st) - ov) (acc @ [st])
          else Some acc) = Some r"
  show "chunk_loop t cs ov st (map (\<lambda>s. py_strip (fst (chunk_window t cs s))) acc) =
        Some (map (\<lambda>s. py_strip (fst (chunk_window t cs s))) r)"
  proof (cases "st < py_len t")
    case True
    with eq have "f t cs ov (snd (chunk_window t cs st) - ov) (acc @ [st]) = Some r" by simp
    from IH [OF this] True show ?thesis by (subst chunk_loop.simps) simp
  next
    case False
    with eq show ?thesis by (subst chunk_loop.simps) auto
  qed
qed

lemma chunk_starts_of_loop:
  assumes "chunk_loop t cs ov st acc' = Some r'"
  shows "\<forall>acc. acc' = map (\<lambda>s. py_strip (fst (chunk_window t cs s))) acc \<longrightarrow>
           (\<exists>r. chunk_starts t cs ov st acc = Some r \<and>
                r' = map (\<lambda>s. py_strip (fst (chunk_window t cs s))) r)"
proof (rule chunk_loop.raw_induct
    [where P = "\<lambda>t cs ov st acc' r'.
        \<forall>acc. acc' = map (\<lambda>s. py_strip (fst (chunk_window t cs s))) acc \<longrightarrow>
           (\<exists>r. chunk_starts t cs ov st acc = Some r \<and>
                r' = map (\<lambda>s. py_strip (fst (chunk_window t cs s))) r)", OF _ assms])
  fix f t cs ov st acc' and r' :: "string list"
  assume IH: "\<And>a b c d e y. f a b c d e = Some y \<Longrightarrow>
      \<forall>acc. e = map (\<lambda>s. py_strip (fst (chunk_window a b s))) acc \<longrightarrow>
           (\<exists>r. chunk_starts a b c d acc = Some r \<and>
                y = map (\<lambda>s. py_strip (fst (chunk_window a b s))) r)"
    and eq: "(if st < py_len t
          then f t cs ov (snd (chunk_window t cs st) - ov)
                 (acc' @ [py_strip (fst (chunk_window t cs st))])
          else Some acc') = Some r'"
  show "\<forall>acc. acc' = map (\<lambda>s. py_strip (fst (chunk_window t cs s))) acc \<longrightarrow>
           (\<exists>r. chunk_starts t cs ov st acc = Some r \<and>
                r' = map (\<lambda>s. py_strip (fst (chunk_window t cs s))) r)"
  proof (intro allI impI)
    fix acc
    assume acc: "acc' = map (\<lambda>s. py_strip (fst (chunk_window t cs s))) acc"
    show "\<exists>r. chunk_starts t cs ov st acc = Some r \<and>
                r' = map (\<lambda>s. py_strip (fst (chunk_window t cs s))) r"
    proof (cases "st < py_len t")
      case True
      with eq have run: "f t cs ov (snd (chunk_window t cs st) - ov)
                 (acc' @ [py_strip (fst (chunk_window t cs st))]) = Some r'" by simp
      from acc have "acc' @ [py_strip (fst (chunk_window t cs st))] =
          map (\<lambda>s. py_strip (fst (chunk_window t cs s))) (acc @ [st])" by simp
      with IH [OF run] obtain r where
        "chunk_starts t cs ov (snd (chunk_window t cs st) - ov) (acc @ [st]) = Some r"
        "r' = map (\<lambda>s. py_strip (fst (chunk_window t cs s))) r" by blast
      with True show ?thesis by (subst chunk_starts.simps) simp
    next
      case False
      with eq acc show ?thesis by (subst chunk_starts.simps) auto
    qed
  qed
qed

lemma chunk_loop_eq_starts:
  "chunk_loop t cs ov st (map (\<lambda>s. py_strip (fst (chunk_window t cs s))) acc) =
   map_option (map (\<lambda>s. py_strip (fst (chunk_window t cs s)))) (chunk_starts t cs ov st acc)"
proof (cases "chunk_starts t cs ov st acc")
  case (Some r)
  with chunk_loop_of_starts [OF Some] show ?thesis by simp
next
  case None
  show ?thesis
  proof (cases "chunk_loop t cs ov st (map (\<lambda>s. py_strip (fst (chunk_window t cs s))) acc)")
    case inner: None
    with None show ?thesis by simp
  next
    case (Some r')
    from chunk_starts_of_loop [OF Some] None show ?thesis by auto
  qed
qed

lemma chunk_starts_chain:
  assumes "chunk_starts t cs ov st acc = Some r"
  shows "\<exists>ws. r = acc @ ws \<and> window_chain t cs ov st ws"
proof (rule chunk_starts.raw_induct
    [where P = "\<lambda>t cs ov st acc r. \<exists>ws. r = acc @ ws \<and> window_chain t cs ov st ws", OF _ assms])
  fix f t cs ov st acc and r :: "int list"
  assume IH: "\<And>a b c d e y. f a b c d e = Some y \<Longrightarrow> \<exists>ws. y = e @ ws \<and> window_chain a b c d ws"
    and eq: "(if st < py_len t
          then f t cs ov (snd (chunk_window t cs st) - ov) (acc @ [st])
          else Some acc) = Some r"
  show "\<exists>ws. r = acc @ ws \<and> window_chain t cs ov st ws"
  proof (cases "st < py_len t")
    case True
    with eq have "f t cs ov (snd (chunk_window t cs st) - ov) (acc @ [st]) = Some r" by simp
    from IH [OF this] obtain ws where "r = (acc @ [st]) @ ws"
      "window_chain t cs ov (snd (chunk_window t cs st) - ov) ws" by blast
    with True have "r = acc @ (st # ws) \<and> window_chain t cs ov st (st # ws)" by simp
    then show ?thesis by blast
  next
    case False
    with eq have "r = acc @ [] \<and> window_chain t cs ov st []" by simp
    then show ?thesis by blast
  qed
qed

text \<open>
  Claim C5 (no chunk is empty: chunks are stripped and empty ones dropped). As stated the
  claim fails: nothing is dropped. Five spaces with windows of two characters give three
  empty chunks, and the empty text gives one empty chunk.
\<close>

theorem chunk_text_keeps_empty_chunks:
  "chunk_text ''     '' 2 0 = Some ['''', '''', ''''] \<and>
   chunk_text '''' CHUNK_SIZE CHUNK_OVERLAP = Some ['''']"
  by (simp add: chunk_text_def chunk_loop.simps chunk_window_def CHUNK_SIZE_def py_string_defs)

text \<open>
  Claim C5, as amended: for a text longer than \<open>chunk_size\<close>, \<open>chunk_text\<close> returns one
  chunk for each window of the loop, in the order of the windows, and that chunk is the
  window stripped; the windows are those of \<open>window_chain\<close>, from \<open>start = 0\<close>. So every
  chunk is stripped: stripping it again changes nothing, and when it is not empty it
  neither starts nor ends with whitespace. A window of whitespace gives an empty chunk,
  and the empty chunk stays in the output: nothing is dropped. Such a run returns when
  \<open>0 \<le> overlap < chunk_size\<close> and \<open>overlap \<le> chunk_size // 2 + 1\<close>.
\<close>

theorem chunk_text_one_chunk_per_window:
  "(chunk_size < py_len t \<longrightarrow>
      chunk_text t chunk_size overlap =
        map_option (map (\<lambda>start. py_strip (fst (chunk_window t chunk_size start))))
          (chunk_starts t chunk_size overlap 0 [])) \<and>
   (chunk_starts t chunk_size overlap 0 [] = Some starts \<longrightarrow>
      window_chain t chunk_size overlap 0 starts) \<and>
   (chunk_size < py_len t \<and> chunk_text t chunk_size overlap = Some chunks \<and> c \<in> set chunks \<longrightarrow>
      py_strip c = c \<and> (c \<noteq> [] \<longrightarrow> \<not> py_isspace (hd c) \<and> \<not> py_isspace (last c))) \<and>
   (0 \<le> overlap \<and> overlap < chunk_size \<and> overlap \<le> chunk_size div 2 + 1 \<longrightarrow>
      (\<exists>chunks. chunk_text t chunk_size overlap = Some chunks))"
proof -
  have windows: "chunk_text t chunk_size overlap =
        map_option (map (\<lambda>start. py_strip (fst (chunk_window t chunk_size start))))
          (chunk_starts t chunk_size overlap 0 [])"
    if "chunk_size < py_len t"
  proof -
    from that have "\<not> py_len t \<le> chunk_size" by simp
    with chunk_loop_eq_starts [of t chunk_size overlap 0 "[]"] show ?thesis
      by (simp add: chunk_text_def)
  qed
  have chain: "window_chain t chunk_size overlap 0 starts"
    if "chunk_starts t chunk_size overlap 0 [] = Some starts"
    using chunk_starts_chain [OF that] by simp
  have stripped: "py_strip c = c \<and> (c \<noteq> [] \<longrightarrow> \<not> py_isspace (hd c) \<and> \<not> py_isspace (last c))"
    if h: "chunk_size < py_len t \<and> chunk_text t chunk_size overlap = Some chunks \<and> c \<in> set chunks"
  proof -
    from h have "\<not> py_len t \<le> chunk_size" by simp
    with h have "chunk_loop t chunk_size overlap 0 [] = Some chunks" by (simp add: chunk_text_def)
    from chunk_loop_stripped [OF this] h have s: "py_strip c = c" by simp
    with py_strip_ends [of c] show ?thesis by simp
  qed
  have returns: "\<exists>chunks. chunk_text t chunk_size overlap = Some chunks"
    if "0 \<le> overlap \<and> overlap < chunk_size \<and> overlap \<le> chunk_size div 2 + 1"
  proof -
    from that have "\<exists>r. chunk_loop t chunk_size overlap 0 [] = Some r"
      by (intro chunk_loop_terminates) simp_all
    then show ?thesis by (simp add: chunk_text_def)
  qed
  from windows chain stripped returns show ?thesis by blast
qed

theorem chunk_text_one_chunk_per_window_witness:
  "(2 :: int) < py_len ''ab   cd'' \<and>
   chunk_starts ''ab   cd'' 2 0 0 [] = Some [0, 2, 4, 6] \<and>
   map (\<lambda>start. fst (chunk_window ''ab   cd'' 2 start)) [0, 2, 4, 6] = [''ab'', ''  '', '' c'', ''d''] \<and>
   chunk_text ''ab   cd'' 2 0 = Some [''ab'', '''', ''c'', ''d''] \<and>
   window_chain ''ab   cd'' 2 0 0 [0, 2, 4, 6] \<and>
   ''c'' \<in> set [''ab'', '''', ''c'', ''d''] \<and>
   py_strip ''c'' = ''c'' \<and> \<not> py_isspace (hd ''c'') \<and> \<not> py_isspace (last ''c'') \<and>
   (0 :: int) \<le> 0 \<and> (0 :: int) < 2 \<and> (0 :: int) \<le> 2 div 2 + 1 \<and>
   (\<exists>chunks. chunk_text ''ab   cd'' 2 0 = Some chunks)"
proof -
  note inst = chunk_text_one_chunk_per_window
    [of 2 "''ab   cd''" 0 "[0, 2, 4, 6]" "[''ab'', '''', ''c'', ''d'']" "''c''"]
  have len: "(2 :: int) < py_len ''ab   cd''" by (simp add: py_len_def)
  have starts: "chunk_starts ''ab   cd'' 2 0 0 [] = Some [0, 2, 4, 6]"
    by code_simp
  have raw: "map (\<lambda>start. fst (chunk_window ''ab   cd'' 2 start)) [0, 2, 4, 6] =
      [''ab'', ''  '', '' c'', ''d'']"
    by code_simp
  have strips: "map (\<lambda>start. py_strip (fst (chunk_window ''ab   cd'' 2 start))) [0, 2, 4, 6] =
      [''ab'', '''', ''c'', ''d'']"
    by code_simp
  from inst len have "chunk_text ''ab   cd'' 2 0 =
      map_option (map (\<lambda>start. py_strip (fst (chunk_window ''ab   cd'' 2 start))))
        (chunk_starts ''ab   cd'' 2 0 0 [])"
    by blast
  then have run: "chunk_text ''ab   cd'' 2 0 = Some [''ab'', '''', ''c'', ''d'']"
    by (simp only: starts strips option.map)
  from inst starts have chain: "window_chain ''ab   cd'' 2 0 0 [0, 2, 4, 6]" by blast
  have mem: "''c'' \<in> set [''ab'', '''', ''c'', ''d'']" by simp
  from inst len run mem
  have c: "py_strip ''c'' = ''c'' \<and> (''c'' \<noteq> [] \<longrightarrow> \<not> py_isspace (hd ''c'') \<and> \<not> py_isspace (last ''c''))"
    by blast
  then have c': "py_strip ''c'' = ''c'' \<and> \<not> py_isspace (hd ''c'') \<and> \<not> py_isspace (last ''c'')"
    by simp
  have cfg: "(0 :: int) \<le> 0 \<and> (0 :: int) < 2 \<and> (0 :: int) \<le> 2 div 2 + 1" by simp
  with inst have ex: "\<exists>chunks. chunk_text ''ab   cd'' 2 0 = Some chunks" by blast
  from len starts raw run chain mem c' cfg ex show ?thesis by blast
qed

section \<open>Chunk identifiers\<close>

lemma of_char_digit_char: "d < 10 \<Longrightarrow> (of_char (digit_char d) :: nat) = 48 + d"
proof -
  assume "d < 10"
  then have "(48 + d) mod 256 = 48 + d" by simp
  then show ?thesis by (simp only: digit_char_def of_char_of)
qed

lemma digits_val_py_str_nat: "digits_val (py_str_nat n) = n"
proof (induction n rule: py_str_nat.induct)
  case (1 n)
  show ?case
  proof (cases "n < 10")
    case True
    then show ?thesis
      by (subst py_str_nat.simps) (simp add: digits_val_def of_char_digit_char)
  next
    case False
    with 1 have "digits_val (py_str_nat (n div 10)) = n div 10" by simp
    with False show ?thesis
      by (subst py_str_nat.simps) (simp add: digits_val_def of_char_digit_char)
  qed
qed

lemma py_str_nat_inj: "py_str_nat i = py_str_nat j \<Longrightarrow> i = j"
  by (metis digits_val_py_str_nat)

lemma py_str_nat_digits: "c \<in> set (py_str_nat n) \<Longrightarrow> is_digit c"
proof (induction n rule: py_str_nat.induct)
  case (1 n)
  show ?case
  proof (cases "n < 10")
    case True
    with "1.prems" show ?thesis
      by (subst (asm) py_str_nat.simps) (simp add: is_digit_def of_char_digit_char)
  next
    case False
    with "1.prems" have "c \<in> set (py_str_nat (n div 10)) \<or> c = digit_char (n mod 10)"
      by (subst (asm) py_str_nat.simps) auto
    with 1 False show ?thesis
      by (auto simp: is_digit_def of_char_digit_char)
  qed
qed

lemma underscore_not_digit: "\<not> is_digit (CHR ''_'')"
  by (simp add: is_digit_def)

lemma underscore_not_in_py_str_nat: "CHR ''_'' \<notin> set (py_str_nat n)"
  using py_str_nat_digits underscore_not_digit by blast

lemma allowed_source_no_underscore: "s \<in> ALLOWED_SOURCES \<Longrightarrow> CHR ''_'' \<notin> set s"
  by (auto simp: ALLOWED_SOURCES_def)

lemma split_first_unique:
  "c \<notin> set a \<Longrightarrow> c \<notin> set b \<Longrightarrow> a @ c # x = b @ c # y \<Longrightarrow> a = b \<and> x = y"
proof (induction a arbitrary: b)
  case Nil
  then show ?case by (cases b) auto
next
  case (Cons h a)
  then show ?case by (cases b) auto
qed

lemma split_last_unique:
  assumes "c \<notin> set d1" "c \<notin> set d2" "x @ c # d1 = y @ c # d2"
  shows "x = y \<and> d1 = d2"
proof -
  from assms(3) have "rev (x @ c # d1) = rev (y @ c # d2)" by (rule arg_cong)
  then have eq: "rev d1 @ c # rev x = rev d2 @ c # rev y" by simp
  have n1: "c \<notin> set (rev d1)" and n2: "c \<notin> set (rev d2)" using assms(1,2) by simp_all
  from split_first_unique [OF n1 n2 eq] show ?thesis by simp
qed

lemma chunk_suffix_inj:
  assumes "a @ ''_chunk_'' @ py_str_nat i = b @ ''_chunk_'' @ py_str_nat j"
  shows "a = b \<and> i = j"
proof -
  have split: "\<And>u d. u @ ''_chunk_'' @ d = (u @ ''_chunk'') @ CHR ''_'' # d" by simp
  from assms have "(a @ ''_chunk'') @ CHR ''_'' # py_str_nat i = (b @ ''_chunk'') @ CHR ''_'' # py_str_nat j"
    by (simp only: split)
  with underscore_not_in_py_str_nat [of i] underscore_not_in_py_str_nat [of j]
  have "a @ ''_chunk'' = b @ ''_chunk'' \<and> py_str_nat i = py_str_nat j"
    by (rule split_last_unique)
  then have "a = b" "py_str_nat i = py_str_nat j" by simp_all
  with py_str_nat_inj [of i j] show ?thesis by blast
qed

lemma make_protocol_id_inj:
  assumes "guideline_source g \<in> ALLOWED_SOURCES" "guideline_source g' \<in> ALLOWED_SOURCES"
    and "make_protocol_id g i = make_protocol_id g' j"
  shows "guideline_identity g = guideline_identity g' \<and> i = j"
proof -
  have split: "\<And>u v. u @ ''_'' @ v = u @ CHR ''_'' # v" by simp
  from assms(3) have "guideline_source g @ CHR ''_'' # (py_format (guideline_id g) @ ''_chunk_'' @ py_str_nat i) =
      guideline_source g' @ CHR ''_'' # (py_format (guideline_id g') @ ''_chunk_'' @ py_str_nat j)"
    by (simp only: make_protocol_id_def split)
  with allowed_source_no_underscore [OF assms(1)] allowed_source_no_underscore [OF assms(2)]
  have "guideline_source g = guideline_source g' \<and>
    py_format (guideline_id g) @ ''_chunk_'' @ py_str_nat i =
     py_format (guideline_id g') @ ''_chunk_'' @ py_str_nat j"
    by (rule split_first_unique)
  with chunk_suffix_inj [of "py_format (guideline_id g)" i "py_format (guideline_id g')" j]
  show ?thesis by (simp add: guideline_identity_def)
qed

lemma chunk_text_default_total: "\<exists>chunks. chunk_text t CHUNK_SIZE CHUNK_OVERLAP = Some chunks"
proof (cases "py_len t \<le> CHUNK_SIZE")
  case True
  then show ?thesis by (simp add: chunk_text_def)
next
  case False
  have "\<exists>r. chunk_loop t CHUNK_SIZE CHUNK_OVERLAP 0 [] = Some r"
    by (rule chunk_loop_terminates) (simp_all add: CHUNK_SIZE_def CHUNK_OVERLAP_def)
  with False show ?thesis by (simp add: chunk_text_def)
qed

lemma protocol_ids_of_chunks:
  "map protocol_id (chunk_protocols g chunks) = map (make_protocol_id g) [0 ..< length chunks]"
proof -
  have "map (\<lambda>p. make_protocol_id g (fst p)) (enumerate 0 chunks) =
      map (make_protocol_id g) (map fst (enumerate 0 chunks))"
    by (simp only: map_map o_def)
  also have "\<dots> = map (make_protocol_id g) [0 ..< length chunks]"
    by simp
  finally show ?thesis
    by (simp add: chunk_protocols_def split_def o_def)
qed

lemma build_protocols_ids:
  "\<exists>ps. build_protocols gs acc = Some ps \<and>
     map protocol_id ps =
       map protocol_id acc @ concat (map (\<lambda>g. map (make_protocol_id g) [0 ..< chunk_count g]) gs)"
proof (induction gs arbitrary: acc)
  case Nil
  then show ?case by simp
next
  case (Cons g gs)
  obtain chunks where c: "chunk_text (guideline_text g) CHUNK_SIZE CHUNK_OVERLAP = Some chunks"
    using chunk_text_default_total by blast
  then have n: "chunk_count g = length chunks" by (simp add: chunk_count_def)
  from Cons.IH [of "acc @ chunk_protocols g chunks"] c n show ?case
    by (simp add: protocol_ids_of_chunks)
qed

lemma filter_row_source:
  "filter_row r = Inr (Some g) \<Longrightarrow> guideline_source g \<in> ALLOWED_SOURCES"
  unfolding filter_row_cases by (auto split: pyval.splits if_splits)

lemma load_rows_sources:
  "load_rows rs acc = Inr gs \<Longrightarrow> \<forall>g \<in> set acc. guideline_source g \<in> ALLOWED_SOURCES \<Longrightarrow>
     \<forall>g \<in> set gs. guideline_source g \<in> ALLOWED_SOURCES"
proof (induction rs arbitrary: acc)
  case Nil
  then show ?case by simp
next
  case (Cons r rs)
  show ?case
  proof (cases "filter_row r")
    case (Inl e)
    with Cons.prems show ?thesis by simp
  next
    case (Inr og)
    show ?thesis
    proof (cases og)
      case None
      with Inr Cons show ?thesis by simp
    next
      case (Some g)
      with Inr have "guideline_source g \<in> ALLOWED_SOURCES" by (simp add: filter_row_source)
      with Cons.prems(2) have "\<forall>g \<in> set (acc @ [g]). guideline_source g \<in> ALLOWED_SOURCES" by simp
      moreover from Cons.prems(1) Inr Some have "load_rows rs (acc @ [g]) = Inr gs" by simp
      ultimately show ?thesis by (rule Cons.IH [rotated])
    qed
  qed
qed

lemma distinct_protocol_ids:
  assumes "\<forall>g \<in> set gs. guideline_source g \<in> ALLOWED_SOURCES"
    and "distinct (map guideline_identity gs)"
  shows "distinct (concat (map (\<lambda>g. map (make_protocol_id g) [0 ..< chunk_count g]) gs))"
  using assms
proof (induction gs)
  case Nil
  then show ?case by simp
next
  case (Cons g gs)
  have src: "guideline_source g \<in> ALLOWED_SOURCES" using Cons.prems(1) by simp
  have own: "distinct (map (make_protocol_id g) [0 ..< chunk_count g])"
  proof (rule distinct_map [THEN iffD2], intro conjI inj_onI)
    show "distinct [0 ..< chunk_count g]" by simp
    fix i j assume "make_protocol_id g i = make_protocol_id g j"
    with make_protocol_id_inj [OF src src] show "i = j" by blast
  qed
  have disjoint: "set (map (make_protocol_id g) [0 ..< chunk_count g]) \<inter>
      set (concat (map (\<lambda>g. map (make_protocol_id g) [0 ..< chunk_count g]) gs)) = {}"
  proof (rule ccontr)
    assume "\<not> ?thesis"
    then obtain i g' j where g': "g' \<in> set gs"
      and eq: "make_protocol_id g i = make_protocol_id g' j"
      by auto
    from g' Cons.prems(1) have "guideline_source g' \<in> ALLOWED_SOURCES" by simp
    from make_protocol_id_inj [OF src this eq]
    have "guideline_identity g = guideline_identity g'" by simp
    with g' have "guideline_identity g \<in> set (map guideline_identity gs)" by simp
    with Cons.prems(2) show False by simp
  qed
  from Cons have "distinct (concat (map (\<lambda>g. map (make_protocol_id g) [0 ..< chunk_count g]) gs))"
    by simp
  with own disjoint show ?case by simp
qed

lemma chunk_text_nonempty:
  assumes "0 \<le> cs" "chunk_text t cs ov = Some chunks"
  shows "chunks \<noteq> []"
proof (cases "py_len t \<le> cs")
  case True
  with assms(2) show ?thesis by (auto simp: chunk_text_def)
next
  case False
  with assms(2) have "chunk_loop t cs ov 0 (map (\<lambda>s. py_strip (fst (chunk_window t cs s))) []) = Some chunks"
    by (simp add: chunk_text_def)
  then obtain ws where ws: "chunk_starts t cs ov 0 [] = Some ws"
    and chunks: "chunks = map (\<lambda>s. py_strip (fst (chunk_window t cs s))) ws"
    unfolding chunk_loop_eq_starts by auto
  from chunk_starts_chain [OF ws] have "window_chain t cs ov 0 ws" by simp
  moreover from False assms(1) have "0 < py_len t" by linarith
  ultimately have "ws \<noteq> []" by (cases ws) simp_all
  with chunks show ?thesis by simp
qed

lemma chunk_count_pos: "0 < chunk_count g"
proof -
  obtain chunks where c: "chunk_text (guideline_text g) CHUNK_SIZE CHUNK_OVERLAP = Some chunks"
    using chunk_text_default_total by blast
  moreover have "0 \<le> CHUNK_SIZE" by (simp add: CHUNK_SIZE_def)
  ultimately have "chunks \<noteq> []" using chunk_text_nonempty by blast
  with c show ?thesis by (simp add: chunk_count_def)
qed

lemma make_protocol_id_identity:
  "guideline_identity g = guideline_identity g' \<Longrightarrow> make_protocol_id g i = make_protocol_id g' i"
  by (simp add: guideline_identity_def make_protocol_id_def)

lemma first_id_listed:
  "make_protocol_id g 0 \<in> set (map (make_protocol_id g) [0 ..< chunk_count g])"
proof -
  from chunk_count_pos [of g] have "0 \<in> set [0 ..< chunk_count g]" by simp
  then show ?thesis by (simp only: set_map) (rule imageI)
qed

lemma distinct_ids_identities:
  assumes "distinct (concat (map (\<lambda>g. map (make_protocol_id g) [0 ..< chunk_count g]) gs))"
  shows "distinct (map guideline_identity gs)"
  using assms
proof (induction gs)
  case Nil
  then show ?case by simp
next
  case (Cons g gs)
  from Cons.prems have rest: "distinct (concat (map (\<lambda>g. map (make_protocol_id g) [0 ..< chunk_count g]) gs))"
    and disjoint: "set (map (make_protocol_id g) [0 ..< chunk_count g]) \<inter>
       set (concat (map (\<lambda>g. map (make_protocol_id g) [0 ..< chunk_count g]) gs)) = {}"
    by simp_all
  have "guideline_identity g \<notin> set (map guideline_identity gs)"
  proof
    assume "guideline_identity g \<in> set (map guideline_identity gs)"
    then obtain g' where g': "g' \<in> set gs" and same: "guideline_identity g = guideline_identity g'"
      by auto
    from g' first_id_listed [of g']
    have "make_protocol_id g' 0 \<in>
        set (concat (map (\<lambda>g. map (make_protocol_id g) [0 ..< chunk_count g]) gs))"
      by auto
    moreover from same have "make_protocol_id g' 0 = make_protocol_id g 0"
      by (rule make_protocol_id_identity [symmetric])
    ultimately show False using disjoint first_id_listed [of g] by auto
  qed
  with Cons.IH [OF rest] show ?case by simp
qed

text \<open>
  Claim C9 (for every admitted corpus the chunk identifiers are pairwise distinct). As
  stated the claim fails: two admitted rows of the same source that carry no \<open>id\<close> both
  get the default \<open>""\<close>, and their first chunks get the same identifier.
\<close>

theorem chunk_ids_collide:
  "(case load_guidelines
           [[''source'' \<mapsto> PStr ''who'', ''clean_text'' \<mapsto> PStr long_text],
            [''source'' \<mapsto> PStr ''who'', ''clean_text'' \<mapsto> PStr long_text]] of
      Inl e \<Rightarrow> None
    | Inr gs \<Rightarrow> map_option (map protocol_id) (build_protocols gs [])) =
   Some [''who__chunk_0'', ''who__chunk_0'']"
  by code_simp

text \<open>
  Claim C9, as amended: the identifier of a chunk is the f-string of the source tag of
  its guideline, of the rendered \<open>id\<close> (the string itself, \<open>None\<close> for the value
  \<open>None\<close>) and of the index of the chunk; it is a function of these alone, so a second
  run on the same input gives the same identifiers. For the guidelines admitted from a
  dataset, \<open>main\<close> builds its protocols, their identifiers are those of each guideline
  with the indices \<open>0, 1, \<dots>\<close> of its chunks, in order, and they are pairwise distinct
  exactly when the guidelines differ pairwise in the pair of source tag and rendered id.
\<close>

theorem chunk_ids_distinct:
  assumes "load_guidelines dataset = Inr gs"
  shows "\<exists>ps. build_protocols gs [] = Some ps \<and>
           map protocol_id ps =
             concat (map (\<lambda>g. map (make_protocol_id g) [0 ..< chunk_count g]) gs) \<and>
           (distinct (map protocol_id ps) \<longleftrightarrow> distinct (map guideline_identity gs)) \<and>
           (\<forall>g g' i. guideline_identity g = guideline_identity g' \<longrightarrow>
                      make_protocol_id g i = make_protocol_id g' i)"
proof -
  from assms have src: "\<forall>g \<in> set gs. guideline_source g \<in> ALLOWED_SOURCES"
    using load_rows_sources [of dataset "[]" gs] by (simp add: load_guidelines_def)
  obtain ps where ps: "build_protocols gs [] = Some ps"
    and ids: "map protocol_id ps =
       concat (map (\<lambda>g. map (make_protocol_id g) [0 ..< chunk_count g]) gs)"
    using build_protocols_ids [of gs "[]"] by auto
  have "distinct (map protocol_id ps) \<longleftrightarrow> distinct (map guideline_identity gs)"
    unfolding ids using distinct_protocol_ids [OF src] distinct_ids_identities by blast
  moreover have "\<forall>g g' i. guideline_identity g = guideline_identity g' \<longrightarrow>
                      make_protocol_id g i = make_protocol_id g' i"
    using make_protocol_id_identity by blast
  ultimately show ?thesis using ps ids by blast
qed

theorem chunk_ids_distinct_witness:
  "load_guidelines
     [[''source'' \<mapsto> PStr ''who'', ''id'' \<mapsto> PStr ''7'', ''clean_text'' \<mapsto> PStr long_text],
      [''source'' \<mapsto> PStr ''who'', ''id'' \<mapsto> PStr ''8'', ''clean_text'' \<mapsto> PStr long_text]] =
   Inr [\<lparr>guideline_id = PStr ''7'', guideline_title = PStr ''Untitled'',
         guideline_source = ''who'', guideline_text = long_text, guideline_url = PStr ''''\<rparr>,
        \<lparr>guideline_id = PStr ''8'', guideline_title = PStr ''Untitled'',
         guideline_source = ''who'', guideline_text = long_text, guideline_url = PStr ''''\<rparr>] \<and>
   (\<exists>ps. build_protocols
           [\<lparr>guideline_id = PStr ''7'', guideline_title = PStr ''Untitled'',
             guideline_source = ''who'', guideline_text = long_text, guideline_url = PStr ''''\<rparr>,
            \<lparr>guideline_id = PStr ''8'', guideline_title = PStr ''Untitled'',
             guideline_source = ''who'', guideline_text = long_text, guideline_url = PStr ''''\<rparr>] [] =
         Some ps \<and> distinct (map protocol_id ps))"
proof -
  let ?D = "[[''source'' \<mapsto> PStr ''who'', ''id'' \<mapsto> PStr ''7'', ''clean_text'' \<mapsto> PStr long_text],
      [''source'' \<mapsto> PStr ''who'', ''id'' \<mapsto> PStr ''8'', ''clean_text'' \<mapsto> PStr long_text]]"
  let ?G = "[\<lparr>guideline_id = PStr ''7'', guideline_title = PStr ''Untitled'',
             guideline_source = ''who'', guideline_text = long_text, guideline_url = PStr ''''\<rparr>,
            \<lparr>guideline_id = PStr ''8'', guideline_title = PStr ''Untitled'',
             guideline_source = ''who'', guideline_text = long_text, guideline_url = PStr ''''\<rparr>]"
  have load: "load_guidelines ?D = Inr ?G" by code_simp
  have dist: "distinct (map guideline_identity ?G)" by (simp add: guideline_identity_def)
  from chunk_ids_distinct [OF load] dist have "\<exists>ps. build_protocols ?G [] = Some ps \<and> distinct (map protocol_id ps)"
    by blast
  with load show ?thesis by (rule conjI)
qed

end
